theory Spec2Isabelle
  imports Main "HOL-Library.Sublist"
begin

section \<open>Network Status Monitor: the monitor object and its event loop\<close>

text \<open>
  A shallow embedding of \<^verbatim>\<open>src/main.py\<close>, class \<^verbatim>\<open>NetworkStatusMonitor\<close>.
  The object's attributes, the widgets it writes to and the part of the Tk event loop it
  talks to (pending \<^verbatim>\<open>after\<close> jobs, running worker threads, callbacks posted by the
  workers, message boxes shown) are the fields of one record; every method takes the
  record and returns the updated one. A method or attribute whose name starts with an
  underscore in the source is written without it (\<open>schedule_check\<close> for
  \<^verbatim>\<open>_schedule_check\<close>, \<open>monitor_job\<close> for \<^verbatim>\<open>_monitor_job\<close>).

  Python strings are written as their UTF-8 bytes: \<^typ>\<open>string\<close> is a list of 8-bit
  characters, and the source's literals contain four characters outside ASCII.
\<close>

subsection \<open>String constants of the source\<close>

definition green_circle :: string where
  \<comment> \<open>U+1F7E2, the first character of the online label and of the RECONNECTED line\<close>
  "green_circle = [CHR 0xF0, CHR 0x9F, CHR 0x9F, CHR 0xA2]"

definition red_circle :: string where
  \<comment> \<open>U+1F534, the first character of the offline label and of the DISCONNECTED line\<close>
  "red_circle = [CHR 0xF0, CHR 0x9F, CHR 0x94, CHR 0xB4]"

definition em_dash :: string where
  \<comment> \<open>U+2014, between a history message and its timestamp\<close>
  "em_dash = [CHR 0xE2, CHR 0x80, CHR 0x94]"

definition pause_sign :: string where
  \<comment> \<open>U+23F8, the first character of the idle label\<close>
  "pause_sign = [CHR 0xE2, CHR 0x8F, CHR 0xB8]"

definition newline :: string where
  "newline = [CHR 0x0A]"

subsection \<open>Class constants\<close>

definition CHECK_URL :: string where
  "CHECK_URL = ''https://www.google.com''"

definition CHECK_TIMEOUT :: nat where
  \<comment> \<open>seconds per request\<close>
  "CHECK_TIMEOUT = 3"

definition CHECK_INTERVAL :: nat where
  \<comment> \<open>milliseconds between checks\<close>
  "CHECK_INTERVAL = 3000"

subsection \<open>The state\<close>

datatype btn_state = Normal | Disabled

datatype alert_kind = ShowInfo | ShowWarning

text \<open>
  A message box: which function of \<^verbatim>\<open>tkinter.messagebox\<close> was called, its title and
  its message.
\<close>

type_synonym alert = "alert_kind \<times> string \<times> string"

record monitor =
  is_monitoring :: bool
  previous_status :: "bool option"
  history :: "string list"
  monitor_job :: "nat option"
  status_label_text :: string
  status_label_fg :: string
  start_btn :: btn_state
  stop_btn :: btn_state
  history_box :: string
  timers :: "(nat \<times> nat) list"
  next_job :: nat
  in_flight :: nat
  posted :: "bool list"
  alerts :: "alert list"
  open_boxes :: "bool list"

text \<open>
  The first four fields are the attributes set in \<^verbatim>\<open>__init__\<close>; the next five are
  what the methods write into the widgets (the label's text and colour, the two buttons'
  states, the text of the history box). The last six are the environment:
  \<^item> \<open>timers\<close>: the pending \<^verbatim>\<open>root.after(CHECK_INTERVAL, self._schedule_check)\<close> jobs,
    each with its identifier and its delay in milliseconds, oldest first;
  \<^item> \<open>next_job\<close>: the next fresh job identifier;
  \<^item> \<open>in_flight\<close>: how many daemon threads are running \<^verbatim>\<open>_check_connection\<close>;
  \<^item> \<open>posted\<close>: the arguments of the \<^verbatim>\<open>root.after(0, self._update_status, is_online)\<close>
    callbacks the workers have queued and the event loop has not run yet, oldest first;
  \<^item> \<open>alerts\<close>: the message boxes shown so far, oldest first;
  \<^item> \<open>open_boxes\<close>: the calls of \<^verbatim>\<open>_update_status\<close> that are waiting inside
    \<^verbatim>\<open>messagebox.showinfo\<close> or \<^verbatim>\<open>messagebox.showwarning\<close> for their box to be
    dismissed, each with its argument \<^verbatim>\<open>is_online\<close>, the innermost call first.

  A message box is modal: the call that opens it does not return until the user dismisses
  the box, and while it waits Tk keeps running the event loop, so that timer jobs and
  posted callbacks run inside the waiting call; it holds the input grab, so that the two
  buttons of the main window cannot be pressed meanwhile.
\<close>

definition init_state :: monitor where
  "init_state = \<lparr>
     is_monitoring = False,
     previous_status = None,
     history = [],
     monitor_job = None,
     status_label_text = pause_sign @ ''  Not Monitoring'',
     status_label_fg = ''#a6adc8'',
     start_btn = Normal,
     stop_btn = Disabled,
     history_box = [],
     timers = [],
     next_job = 0,
     in_flight = 0,
     posted = [],
     alerts = [],
     open_boxes = [] \<rparr>"

subsection \<open>History logging\<close>

definition log_history :: "string \<Rightarrow> monitor \<Rightarrow> monitor" where
  "log_history message s =
     s\<lparr> history := history s @ [message],
        history_box := history_box s @ message @ newline \<rparr>"

subsection \<open>Scheduling\<close>

text \<open>
  \<^verbatim>\<open>_schedule_check\<close>: return when not monitoring; otherwise start a worker thread and
  then register the next call of itself with \<^verbatim>\<open>root.after\<close>, keeping the job in
  \<^verbatim>\<open>_monitor_job\<close>.
\<close>

definition schedule_check :: "monitor \<Rightarrow> monitor" where
  "schedule_check s =
     (if \<not> is_monitoring s then s
      else s\<lparr> in_flight := in_flight s + 1,
              timers := timers s @ [(next_job s, CHECK_INTERVAL)],
              monitor_job := Some (next_job s),
              next_job := next_job s + 1 \<rparr>)"

text \<open>\<^verbatim>\<open>root.after_cancel(job)\<close>: the job is taken off the pending ones, if it is there.\<close>

definition after_cancel :: "nat \<Rightarrow> (nat \<times> nat) list \<Rightarrow> (nat \<times> nat) list" where
  "after_cancel j ts = filter (\<lambda>t. fst t \<noteq> j) ts"

subsection \<open>Monitoring controls\<close>

definition start_monitoring :: "monitor \<Rightarrow> monitor" where
  "start_monitoring s =
     (if is_monitoring s then s
      else schedule_check
             (log_history ''Monitoring started.''
               (s\<lparr> is_monitoring := True,
                   previous_status := None,
                   start_btn := Disabled,
                   stop_btn := Normal \<rparr>)))"

definition stop_monitoring :: "monitor \<Rightarrow> monitor" where
  "stop_monitoring s =
     (let s1 = s\<lparr> is_monitoring := False \<rparr>;
          s2 = (case monitor_job s1 of
                  None \<Rightarrow> s1
                | Some j \<Rightarrow> s1\<lparr> timers := after_cancel j (timers s1), monitor_job := None \<rparr>);
          s3 = s2\<lparr> start_btn := Normal,
                   stop_btn := Disabled,
                   status_label_text := pause_sign @ ''  Not Monitoring'',
                   status_label_fg := ''#a6adc8'' \<rparr>
      in log_history ''Monitoring stopped.'' s3)"

subsection \<open>The connectivity check\<close>

text \<open>
  What \<^verbatim>\<open>requests.get\<close> can do: return a response with a status code, raise an exception
  whose class is a subclass of \<^verbatim>\<open>requests.RequestException\<close>, or raise an exception of
  any other class, given by its name. The subclasses listed are those of the library:
  \<^verbatim>\<open>Timeout\<close>, \<^verbatim>\<open>ConnectionError\<close> (a name that does not resolve, a refused
  connection), \<^verbatim>\<open>SSLError\<close> and \<^verbatim>\<open>ChunkedEncodingError\<close> (a body that breaks off).
  Not every failure of a request is one of them: on a redirect whose \<^verbatim>\<open>Location\<close>
  header does not parse as a URL the library lets the built-in \<^verbatim>\<open>ValueError\<close> through.
\<close>

datatype request_exception =
  Timeout | ConnectionError | SSLError | ChunkedEncodingError

datatype get_outcome =
  Response int | RequestException request_exception | OtherException string

text \<open>
  \<^verbatim>\<open>_check_connection\<close>, run by a worker thread. The network is a parameter: it maps the
  URL and the timeout of the request to the outcome. The result is the argument of the
  callback the worker posts; an exception that is not a \<^verbatim>\<open>RequestException\<close> is not
  caught, the thread ends and nothing is posted (\<open>None\<close>).
\<close>

definition check_connection :: "(string \<Rightarrow> nat \<Rightarrow> get_outcome) \<Rightarrow> bool option" where
  "check_connection get =
     (case get CHECK_URL CHECK_TIMEOUT of
        Response status_code \<Rightarrow> Some (status_code < 400)
      | RequestException e \<Rightarrow> Some False
      | OtherException class_name \<Rightarrow> None)"

subsection \<open>Status update and change detection\<close>

text \<open>
  \<^verbatim>\<open>messagebox.showinfo\<close> and \<^verbatim>\<open>messagebox.showwarning\<close>: the box appears on the
  screen. That the call then waits is part of \<open>update_status_begin\<close> below.
\<close>

definition show_alert :: "alert_kind \<Rightarrow> string \<Rightarrow> string \<Rightarrow> monitor \<Rightarrow> monitor" where
  "show_alert k title msg s = s\<lparr> alerts := alerts s @ [(k, title, msg)] \<rparr>"

text \<open>
  \<^verbatim>\<open>_update_status\<close>, in the two parts its control flow has; \<open>timestamp\<close> is what
  \<^verbatim>\<open>datetime.now().strftime(...)\<close> returns when the method runs.

  \<open>update_status_begin\<close> is the method up to its last statement: the label is written,
  and either a transition is logged and its message box opened, or the initial reading
  is logged, or nothing more is done. The second component says whether the call is now
  waiting in a message box. \<open>update_status_end\<close> is the last statement,
  \<^verbatim>\<open>self.previous_status = is_online\<close>, which on the two transition branches runs only
  once the box has been dismissed.
\<close>

definition update_status_begin :: "bool \<Rightarrow> string \<Rightarrow> monitor \<Rightarrow> monitor \<times> bool" where
  "update_status_begin is_online timestamp s =
     (let s1 = (if is_online
                then s\<lparr> status_label_text := green_circle @ ''  Online'',
                        status_label_fg := ''#a6e3a1'' \<rparr>
                else s\<lparr> status_label_text := red_circle @ ''  Offline'',
                        status_label_fg := ''#f38ba8'' \<rparr>)
      in if previous_status s1 \<noteq> None \<and> Some is_online \<noteq> previous_status s1 then
           (if is_online then
              (show_alert ShowInfo ''Network Status''
                 (''Internet reconnected at '' @ timestamp)
                 (log_history
                    (green_circle @ '' RECONNECTED  '' @ em_dash @ '' '' @ timestamp) s1),
               True)
            else
              (show_alert ShowWarning ''Network Status''
                 (''Internet disconnected at '' @ timestamp)
                 (log_history
                    (red_circle @ '' DISCONNECTED '' @ em_dash @ '' '' @ timestamp) s1),
               True))
         else if previous_status s1 = None then
           (log_history
              (''Initial status: '' @ (if is_online then ''Online'' else ''Offline'')
                 @ '' '' @ em_dash @ '' '' @ timestamp) s1,
            False)
         else (s1, False))"

definition update_status_end :: "bool \<Rightarrow> monitor \<Rightarrow> monitor" where
  "update_status_end is_online s = s\<lparr> previous_status := Some is_online \<rparr>"

text \<open>
  A whole call of \<^verbatim>\<open>_update_status\<close> during which nothing else runs: it opens no box, or
  its box is dismissed before the event loop gets to anything else.
\<close>

definition update_status :: "bool \<Rightarrow> string \<Rightarrow> monitor \<Rightarrow> monitor" where
  "update_status is_online timestamp s =
     update_status_end is_online (fst (update_status_begin is_online timestamp s))"

subsection \<open>The event loop\<close>

text \<open>
  What can happen to the monitor: a call of \<^verbatim>\<open>start_monitoring\<close> or
  \<^verbatim>\<open>stop_monitoring\<close> (the two buttons' commands), a pending timer job coming due, a
  worker thread finishing its request against the network as it is at that moment, and
  the event loop running the oldest posted callback at a given time of day. The callback
  either runs to its end with nothing in between (\<open>Deliver\<close>), or it opens a message
  box and waits in it (\<open>OpenBox\<close>) until the user dismisses the box (\<open>Dismiss\<close>);
  between the two, the event loop goes on inside the waiting call.
\<close>

datatype event =
  Start
| Stop
| TimerFire nat
| ProbeDone "string \<Rightarrow> nat \<Rightarrow> get_outcome"
| Deliver string
| OpenBox string
| Dismiss

text \<open>
  One event; \<open>None\<close> when the event cannot happen in the state: only a pending job
  comes due (and it is pending no longer when its callback runs), only a running worker
  finishes, only a posted callback is run, a button is pressed only while no message box
  is open, a call waits only if it has opened a box, and only the innermost open box is
  dismissed (the calls waiting in the outer ones cannot go on before the inner ones
  return). Time itself is not modelled: a pending job may come due before or after a
  running probe finishes.
\<close>

definition step :: "event \<Rightarrow> monitor \<Rightarrow> monitor option" where
  "step e s =
     (case e of
        Start \<Rightarrow> (if open_boxes s = [] then Some (start_monitoring s) else None)
      | Stop \<Rightarrow> (if open_boxes s = [] then Some (stop_monitoring s) else None)
      | TimerFire j \<Rightarrow>
          (if j \<in> set (map fst (timers s))
           then Some (schedule_check (s\<lparr> timers := after_cancel j (timers s) \<rparr>))
           else None)
      | ProbeDone get \<Rightarrow>
          (if in_flight s = 0 then None
           else (case check_connection get of
                   None \<Rightarrow> Some (s\<lparr> in_flight := in_flight s - 1 \<rparr>)
                 | Some is_online \<Rightarrow>
                     Some (s\<lparr> in_flight := in_flight s - 1,
                              posted := posted s @ [is_online] \<rparr>)))
      | Deliver timestamp \<Rightarrow>
          (case posted s of
             [] \<Rightarrow> None
           | is_online # rest \<Rightarrow> Some (update_status is_online timestamp (s\<lparr> posted := rest \<rparr>)))
      | OpenBox timestamp \<Rightarrow>
          (case posted s of
             [] \<Rightarrow> None
           | is_online # rest \<Rightarrow>
               (case update_status_begin is_online timestamp (s\<lparr> posted := rest \<rparr>) of
                  (s', waits) \<Rightarrow>
                    (if waits then Some (s'\<lparr> open_boxes := is_online # open_boxes s' \<rparr>)
                     else None)))
      | Dismiss \<Rightarrow>
          (case open_boxes s of
             [] \<Rightarrow> None
           | is_online # rest \<Rightarrow> Some (update_status_end is_online (s\<lparr> open_boxes := rest \<rparr>))))"

fun run :: "event list \<Rightarrow> monitor \<Rightarrow> monitor option" where
  "run [] s = Some s"
| "run (e # es) s = (case step e s of None \<Rightarrow> None | Some s' \<Rightarrow> run es s')"

subsection \<open>Predicates used in the statements\<close>

definition is_deliver :: "event \<Rightarrow> bool" where
  "is_deliver e = (case e of Deliver timestamp \<Rightarrow> True | _ \<Rightarrow> False)"

text \<open>
  The pending timer jobs while monitoring: exactly one, the one \<^verbatim>\<open>_monitor_job\<close> holds;
  none while idle.
\<close>

definition timer_inv :: "monitor \<Rightarrow> bool" where
  "timer_inv s =
     (if is_monitoring s
      then monitor_job s \<noteq> None \<and> timers s = [(the (monitor_job s), CHECK_INTERVAL)]
      else timers s = [])"

section \<open>Properties\<close>

subsection \<open>Effects of the single methods on the history\<close>

lemma history_log_history: "history (log_history m s) = history s @ [m]"
  by (simp add: log_history_def)

lemma history_schedule_check: "history (schedule_check s) = history s"
  by (simp add: schedule_check_def)

lemma history_start_monitoring:
  "history (start_monitoring s) =
     (if is_monitoring s then history s else history s @ [''Monitoring started.''])"
  by (simp add: start_monitoring_def history_schedule_check history_log_history)

lemma history_stop_monitoring:
  "history (stop_monitoring s) = history s @ [''Monitoring stopped.'']"
  by (simp add: stop_monitoring_def Let_def history_log_history split: option.split)

text \<open>
  C10. The control operations write to the history themselves: a call of
  \<open>start_monitoring\<close> that begins monitoring appends \<open>Monitoring started.\<close>, and every
  call of \<open>stop_monitoring\<close> appends \<open>Monitoring stopped.\<close>, also when monitoring is
  already off: the call is not guarded, so two calls in a row append the entry twice.
\<close>

theorem control_operations_log:
  "(\<not> is_monitoring s \<longrightarrow>
      history (start_monitoring s) = history s @ [''Monitoring started.''])
   \<and> history (stop_monitoring s) = history s @ [''Monitoring stopped.'']
   \<and> \<not> is_monitoring (stop_monitoring s)
   \<and> history (stop_monitoring (stop_monitoring s))
       = history s @ [''Monitoring stopped.'', ''Monitoring stopped.'']"
  by (simp add: history_start_monitoring history_stop_monitoring)
    (simp add: stop_monitoring_def Let_def log_history_def split: option.split)

theorem control_operations_log_witness:
  "\<not> is_monitoring init_state
   \<and> history (start_monitoring init_state) = [''Monitoring started.'']
   \<and> history (stop_monitoring init_state) = [''Monitoring stopped.'']
   \<and> history (stop_monitoring (stop_monitoring init_state))
       = [''Monitoring stopped.'', ''Monitoring stopped.'']"
  using control_operations_log [of init_state] by (simp add: init_state_def)


subsection \<open>Effects of \<open>update_status\<close>\<close>


lemma update_status_initial:
  "previous_status s = None \<Longrightarrow>
   update_status b ts s =
     s\<lparr> status_label_text := (if b then green_circle @ ''  Online'' else red_circle @ ''  Offline''),
        status_label_fg := (if b then ''#a6e3a1'' else ''#f38ba8''),
        history := history s @
          [''Initial status: '' @ (if b then ''Online'' else ''Offline'')
             @ '' '' @ em_dash @ '' '' @ ts],
        history_box := history_box s @
          (''Initial status: '' @ (if b then ''Online'' else ''Offline'')
             @ '' '' @ em_dash @ '' '' @ ts) @ newline,
        previous_status := Some b \<rparr>"
  by (simp add: update_status_def update_status_begin_def update_status_end_def Let_def
      log_history_def)

lemma previous_status_start_monitoring:
  "\<not> is_monitoring s \<Longrightarrow> previous_status (start_monitoring s) = None"
  by (simp add: start_monitoring_def schedule_check_def log_history_def)

lemma previous_status_stop_monitoring:
  "previous_status (stop_monitoring s) = previous_status s"
  by (simp add: stop_monitoring_def Let_def log_history_def split: option.split)

lemma is_monitoring_stop_monitoring: "\<not> is_monitoring (stop_monitoring s)"
  by (simp add: stop_monitoring_def Let_def log_history_def split: option.split)

lemma previous_status_schedule_check:
  "previous_status (schedule_check s) = previous_status s"
  by (simp add: schedule_check_def)

lemma open_boxes_start_monitoring: "open_boxes (start_monitoring s) = open_boxes s"
  by (simp add: start_monitoring_def schedule_check_def log_history_def)

lemma open_boxes_stop_monitoring: "open_boxes (stop_monitoring s) = open_boxes s"
  by (simp add: stop_monitoring_def Let_def log_history_def split: option.split)

lemma open_boxes_schedule_check: "open_boxes (schedule_check s) = open_boxes s"
  by (simp add: schedule_check_def)

lemma start_monitoring_keeps_unset:
  "previous_status s = None \<Longrightarrow> previous_status (start_monitoring s) = None"
  by (simp add: start_monitoring_def schedule_check_def log_history_def)

lemma update_status_begin_unset_no_box:
  "previous_status s = None \<Longrightarrow> \<not> snd (update_status_begin b ts s)"
  by (simp add: update_status_begin_def Let_def)


lemma step_OpenBox_cases:
  assumes "step (OpenBox ts) s = Some s'"
  obtains x rest where "posted s = x # rest"
    and "snd (update_status_begin x ts (s\<lparr> posted := rest \<rparr>))"
    and "s' = (fst (update_status_begin x ts (s\<lparr> posted := rest \<rparr>)))
                \<lparr> open_boxes :=
                    x # open_boxes (fst (update_status_begin x ts (s\<lparr> posted := rest \<rparr>))) \<rparr>"
proof (cases "posted s")
  case Nil
  with assms show ?thesis by (simp add: step_def)
next
  case (Cons x rest)
  obtain t w where b: "update_status_begin x ts (s\<lparr> posted := rest \<rparr>) = (t, w)"
    by (cases "update_status_begin x ts (s\<lparr> posted := rest \<rparr>)")
  with assms Cons have "w" and "s' = t\<lparr> open_boxes := x # open_boxes t \<rparr>"
    by (simp_all add: step_def split: if_splits)
  with Cons b that [of x rest] show ?thesis by simp
qed

lemma open_boxes_update_status: "open_boxes (update_status b ts s) = open_boxes s"
  by (simp add: update_status_def update_status_begin_def update_status_end_def Let_def
      log_history_def show_alert_def)

text \<open>
  While the previous status is unset and no message box is open, an event that is not a
  delivery leaves it so: no box can open on an unset reading, and there is none to
  dismiss.
\<close>

lemma step_keeps_unset:
  assumes "step e s = Some s'" and "\<not> is_deliver e"
    and "previous_status s = None" and "open_boxes s = []"
  shows "previous_status s' = None \<and> open_boxes s' = []"
proof (cases e)
  case Start
  with assms have "s' = start_monitoring s"
    by (simp add: step_def)
  with assms show ?thesis
    by (simp add: start_monitoring_keeps_unset open_boxes_start_monitoring)
next
  case Stop
  with assms have "s' = stop_monitoring s"
    by (simp add: step_def)
  with assms show ?thesis
    by (simp add: previous_status_stop_monitoring open_boxes_stop_monitoring)
next
  case (TimerFire j)
  with assms have "s' = schedule_check (s\<lparr> timers := after_cancel j (timers s) \<rparr>)"
    by (simp add: step_def split: if_splits)
  with assms show ?thesis
    by (simp add: previous_status_schedule_check open_boxes_schedule_check)
next
  case (ProbeDone get)
  with assms show ?thesis
    by (auto simp add: step_def split: if_splits option.splits)
next
  case (Deliver ts)
  with assms show ?thesis by (simp add: is_deliver_def)
next
  case (OpenBox ts)
  with assms obtain x rest where p: "posted s = x # rest"
    and w: "snd (update_status_begin x ts (s\<lparr> posted := rest \<rparr>))"
    by (auto elim: step_OpenBox_cases)
  from assms(3) have "previous_status (s\<lparr> posted := rest \<rparr>) = None" by simp
  from update_status_begin_unset_no_box [OF this] w show ?thesis by simp
next
  case Dismiss
  with assms show ?thesis by (simp add: step_def)
qed

lemma run_keeps_unset:
  "run es s = Some s' \<Longrightarrow> \<forall>e \<in> set es. \<not> is_deliver e \<Longrightarrow>
   previous_status s = None \<Longrightarrow> open_boxes s = [] \<Longrightarrow>
   previous_status s' = None"
proof (induction es arbitrary: s)
  case Nil
  then show ?case by simp
next
  case (Cons e es)
  from Cons.prems(1) obtain s1 where e: "step e s = Some s1" and r: "run es s1 = Some s'"
    by (auto split: option.splits)
  from Cons.prems(2) have nd: "\<not> is_deliver e" and nds: "\<forall>e \<in> set es. \<not> is_deliver e"
    by simp_all
  from step_keeps_unset [OF e nd Cons.prems(3) Cons.prems(4)]
  have "previous_status s1 = None" and "open_boxes s1 = []" by simp_all
  with r nds show ?case by (rule Cons.IH)
qed

text \<open>
  C1. The first result processed after a start is an initial reading, whatever happened
  before: when \<open>start_monitoring\<close> is called while monitoring is off (so in particular
  right after \<open>stop_monitoring\<close>, from any state), the next call of \<open>update_status\<close>
  appends the line \<open>Initial status: Online\<close> or \<open>Initial status: Offline\<close>, followed by
  the timestamp, to the history and shows no message box. The same holds in the event
  loop when other events that deliver no result (timers coming due, probes finishing,
  further starts and stops) come between the start and the first delivery.
\<close>

theorem first_result_after_start_is_initial:
  "(\<not> is_monitoring s \<longrightarrow>
      history (update_status b ts (start_monitoring s)) =
        history (start_monitoring s) @
          [''Initial status: '' @ (if b then ''Online'' else ''Offline'')
             @ '' '' @ em_dash @ '' '' @ ts]
      \<and> alerts (update_status b ts (start_monitoring s)) = alerts (start_monitoring s))
   \<and> history (update_status b ts (start_monitoring (stop_monitoring s))) =
        history (start_monitoring (stop_monitoring s)) @
          [''Initial status: '' @ (if b then ''Online'' else ''Offline'')
             @ '' '' @ em_dash @ '' '' @ ts]
   \<and> alerts (update_status b ts (start_monitoring (stop_monitoring s))) =
        alerts (start_monitoring (stop_monitoring s))
   \<and> (\<not> is_monitoring s \<and> run (Start # es) s = Some s1 \<and> (\<forall>e \<in> set es. \<not> is_deliver e)
        \<and> step (Deliver ts) s1 = Some s2 \<longrightarrow>
      posted s1 \<noteq> []
      \<and> history s2 = history s1 @
          [''Initial status: '' @ (if hd (posted s1) then ''Online'' else ''Offline'')
             @ '' '' @ em_dash @ '' '' @ ts]
      \<and> alerts s2 = alerts s1)"
proof -
  have direct: "history (update_status b ts (start_monitoring t)) =
        history (start_monitoring t) @
          [''Initial status: '' @ (if b then ''Online'' else ''Offline'')
             @ '' '' @ em_dash @ '' '' @ ts]
      \<and> alerts (update_status b ts (start_monitoring t)) = alerts (start_monitoring t)"
    if "\<not> is_monitoring t" for t
    using previous_status_start_monitoring [OF that]
    by (simp add: update_status_initial)
  have loop: "posted s1 \<noteq> []
      \<and> history s2 = history s1 @
          [''Initial status: '' @ (if hd (posted s1) then ''Online'' else ''Offline'')
             @ '' '' @ em_dash @ '' '' @ ts]
      \<and> alerts s2 = alerts s1"
    if idle: "\<not> is_monitoring s" and r: "run (Start # es) s = Some s1"
      and nd: "\<forall>e \<in> set es. \<not> is_deliver e" and d: "step (Deliver ts) s1 = Some s2"
  proof -
    from r have nb: "open_boxes s = []" and "run es (start_monitoring s) = Some s1"
      by (simp_all add: step_def split: if_splits)
    from this(2) nd previous_status_start_monitoring [OF idle]
    have unset: "previous_status s1 = None"
      by (rule run_keeps_unset) (simp add: open_boxes_start_monitoring nb)
    from d obtain x rest where p: "posted s1 = x # rest"
      and s2: "s2 = update_status x ts (s1\<lparr> posted := rest \<rparr>)"
      by (auto simp add: step_def split: list.splits)
    from unset have "previous_status (s1\<lparr> posted := rest \<rparr>) = None" by simp
    then show ?thesis
      using p s2 by (simp add: update_status_initial)
  qed
  from direct [of s] direct [of "stop_monitoring s"] loop show ?thesis
    by (simp add: is_monitoring_stop_monitoring)
qed


theorem first_result_after_start_is_initial_witness:
  "\<exists>s1 s2. \<not> is_monitoring init_state
     \<and> run [Start, ProbeDone (\<lambda>url timeout. Response 200)] init_state = Some s1
     \<and> \<not> is_deliver (ProbeDone (\<lambda>url timeout. Response 200))
     \<and> step (Deliver ''2024-05-01 12:00:00'') s1 = Some s2
     \<and> posted s1 = [True]
     \<and> history s2 =
          [''Monitoring started.'',
           ''Initial status: Online '' @ em_dash @ '' 2024-05-01 12:00:00'']
     \<and> alerts s2 = []"
proof -
  define s1 where
    "s1 = (start_monitoring init_state)\<lparr> in_flight := 0, posted := [True] \<rparr>"
  define s2 where
    "s2 = update_status True ''2024-05-01 12:00:00'' (s1\<lparr> posted := [] \<rparr>)"
  have idle: "\<not> is_monitoring init_state"
    by (simp add: init_state_def)
  have r: "run (Start # [ProbeDone (\<lambda>url timeout. Response 200)]) init_state = Some s1"
    by (simp add: s1_def step_def start_monitoring_def schedule_check_def log_history_def
        check_connection_def init_state_def)
  have nd: "\<forall>e \<in> set [ProbeDone (\<lambda>url timeout. Response 200)]. \<not> is_deliver e"
    by (simp add: is_deliver_def)
  have p: "posted s1 = [True]" and h: "history s1 = [''Monitoring started.'']"
    and a: "alerts s1 = []"
    by (simp_all add: s1_def start_monitoring_def schedule_check_def log_history_def
        init_state_def)
  have d: "step (Deliver ''2024-05-01 12:00:00'') s1 = Some s2"
    by (simp add: step_def p s2_def)
  from first_result_after_start_is_initial
    [of init_state True "''2024-05-01 12:00:00''"
      "[ProbeDone (\<lambda>url timeout. Response 200)]" s1 s2] idle r nd d
  have "history s2 = history s1 @
          [''Initial status: '' @ (if hd (posted s1) then ''Online'' else ''Offline'')
             @ '' '' @ em_dash @ '' '' @ ''2024-05-01 12:00:00'']"
    and "alerts s2 = alerts s1"
    by blast+
  with p h a have "history s2 =
          [''Monitoring started.'',
           ''Initial status: Online '' @ em_dash @ '' 2024-05-01 12:00:00'']"
    and "alerts s2 = []"
    by simp_all
  with idle r nd d p show ?thesis
    by (intro exI [of _ s1] exI [of _ s2]) simp
qed

subsection \<open>The previous reading\<close>




subsection \<open>The history only grows\<close>

lemma prefix_history_update_status_begin:
  "prefix (history s) (history (fst (update_status_begin b ts s)))"
  by (simp add: update_status_begin_def Let_def log_history_def show_alert_def)

lemma prefix_history_update_status:
  "prefix (history s) (history (update_status b ts s))"
  using prefix_history_update_status_begin [of s b ts]
  by (simp add: update_status_def update_status_end_def)

lemma prefix_history_step:
  assumes "step e s = Some s'"
  shows "prefix (history s) (history s')"
proof (cases e)
  case Start
  with assms show ?thesis
    by (auto simp add: step_def history_start_monitoring split: if_splits)
next
  case Stop
  with assms show ?thesis
    by (auto simp add: step_def history_stop_monitoring split: if_splits)
next
  case (TimerFire j)
  with assms show ?thesis
    by (auto simp add: step_def history_schedule_check split: if_splits)
next
  case (ProbeDone get)
  with assms show ?thesis
    by (auto simp add: step_def split: if_splits option.splits)
next
  case (Deliver ts)
  with assms obtain x rest where "s' = update_status x ts (s\<lparr> posted := rest \<rparr>)"
    by (auto simp add: step_def split: list.splits)
  with prefix_history_update_status [of "s\<lparr> posted := rest \<rparr>" x ts] show ?thesis
    by simp
next
  case (OpenBox ts)
  with assms obtain x rest
    where "s' = (fst (update_status_begin x ts (s\<lparr> posted := rest \<rparr>)))
                  \<lparr> open_boxes := x # open_boxes (fst (update_status_begin x ts (s\<lparr> posted := rest \<rparr>))) \<rparr>"
    by (auto elim: step_OpenBox_cases)
  with prefix_history_update_status_begin [of "s\<lparr> posted := rest \<rparr>" x ts] show ?thesis
    by simp
next
  case Dismiss
  with assms show ?thesis
    by (auto simp add: step_def update_status_end_def split: list.splits)
qed

lemma prefix_history_run:
  "run es s = Some s' \<Longrightarrow> prefix (history s) (history s')"
proof (induction es arbitrary: s)
  case Nil
  then show ?case by simp
next
  case (Cons e es)
  from Cons.prems obtain s1 where e: "step e s = Some s1" and r: "run es s1 = Some s'"
    by (auto split: option.splits)
  from prefix_history_step [OF e] Cons.IH [OF r] show ?case
    by (rule prefix_order.trans)
qed

text \<open>
  C8. The history is append-only: after each method (\<open>log_history\<close>,
  \<open>start_monitoring\<close>, \<open>stop_monitoring\<close>, \<open>schedule_check\<close>, \<open>update_status\<close>) the
  history it found is a prefix of the history it leaves, and so it is after any sequence
  of events of the event loop. No entry is removed or changed.
\<close>

theorem history_append_only:
  "prefix (history s) (history (log_history m s))
   \<and> prefix (history s) (history (start_monitoring s))
   \<and> prefix (history s) (history (stop_monitoring s))
   \<and> prefix (history s) (history (schedule_check s))
   \<and> prefix (history s) (history (update_status b ts s))
   \<and> (run es s = Some s' \<longrightarrow> prefix (history s) (history s'))"
  by (simp add: history_log_history history_start_monitoring history_stop_monitoring
      history_schedule_check prefix_history_update_status prefix_history_run)

theorem history_append_only_witness:
  "\<exists>s'. run [Start, ProbeDone (\<lambda>url timeout. RequestException Timeout),
              Deliver ''2024-05-01 12:00:03'', Stop] init_state = Some s'
     \<and> history init_state = []
     \<and> history s' =
         [''Monitoring started.'',
          ''Initial status: Offline '' @ em_dash @ '' 2024-05-01 12:00:03'',
          ''Monitoring stopped.'']
     \<and> prefix (history init_state) (history s')"
proof -
  let ?es = "[Start, ProbeDone (\<lambda>url timeout. RequestException Timeout),
              Deliver ''2024-05-01 12:00:03'', Stop]"
  define s' where "s' = the (run ?es init_state)"
  have r: "run ?es init_state = Some s'"
    by (simp add: s'_def step_def start_monitoring_def schedule_check_def log_history_def
        check_connection_def init_state_def open_boxes_update_status)
  have h: "history s' =
         [''Monitoring started.'',
          ''Initial status: Offline '' @ em_dash @ '' 2024-05-01 12:00:03'',
          ''Monitoring stopped.'']"
    by (simp add: s'_def step_def start_monitoring_def schedule_check_def log_history_def
        check_connection_def init_state_def update_status_def update_status_begin_def
        update_status_end_def stop_monitoring_def Let_def after_cancel_def)
  from history_append_only [of init_state _ _ _ ?es s'] r
  have "prefix (history init_state) (history s')"
    by blast
  with r h show ?thesis
    by (intro exI [of _ s']) (simp add: init_state_def)
qed


subsection \<open>Starting twice, and the pending timer\<close>

lemma timer_inv_init: "timer_inv init_state"
  by (simp add: timer_inv_def init_state_def)

lemma timer_inv_start_monitoring: "timer_inv s \<Longrightarrow> timer_inv (start_monitoring s)"
  by (auto simp add: timer_inv_def start_monitoring_def schedule_check_def log_history_def
      split: if_splits)

lemma timer_inv_stop_monitoring: "timer_inv s \<Longrightarrow> timer_inv (stop_monitoring s)"
  by (auto simp add: timer_inv_def stop_monitoring_def Let_def log_history_def after_cancel_def
      split: option.splits list.splits if_splits)

lemma timer_inv_fire:
  assumes "timer_inv s" and "j \<in> set (map fst (timers s))"
  shows "timer_inv (schedule_check (s\<lparr> timers := after_cancel j (timers s) \<rparr>))"
proof -
  from assms have m: "is_monitoring s"
    by (cases "is_monitoring s") (simp_all add: timer_inv_def)
  with assms have "timers s = [(j, CHECK_INTERVAL)]"
    by (auto simp add: timer_inv_def)
  with m show ?thesis
    by (simp add: timer_inv_def schedule_check_def after_cancel_def)
qed

lemma timer_inv_update_status_begin:
  "timer_inv s \<Longrightarrow> timer_inv (fst (update_status_begin b ts s))"
  by (auto simp add: timer_inv_def update_status_begin_def Let_def log_history_def
      show_alert_def split: if_splits)

lemma timer_inv_update_status_end: "timer_inv (update_status_end b s) = timer_inv s"
  by (simp add: timer_inv_def update_status_end_def)

lemma timer_inv_update_status: "timer_inv s \<Longrightarrow> timer_inv (update_status b ts s)"
  by (simp add: update_status_def timer_inv_update_status_end timer_inv_update_status_begin)

lemma timer_inv_open_boxes: "timer_inv (s\<lparr> open_boxes := p \<rparr>) = timer_inv s"
  by (simp add: timer_inv_def)

lemma timer_inv_posted: "timer_inv (s\<lparr> posted := p \<rparr>) = timer_inv s"
  by (simp add: timer_inv_def)

lemma timer_inv_step:
  assumes "timer_inv s" and "step e s = Some s'"
  shows "timer_inv s'"
proof (cases e)
  case Start
  with assms show ?thesis
    by (auto simp add: step_def timer_inv_start_monitoring split: if_splits)
next
  case Stop
  with assms show ?thesis
    by (auto simp add: step_def timer_inv_stop_monitoring split: if_splits)
next
  case (TimerFire j)
  with assms have "j \<in> set (map fst (timers s))"
    and "s' = schedule_check (s\<lparr> timers := after_cancel j (timers s) \<rparr>)"
    by (auto simp add: step_def split: if_splits)
  with assms(1) show ?thesis
    by (simp only: timer_inv_fire)
next
  case (ProbeDone get)
  with assms show ?thesis
    by (auto simp add: step_def timer_inv_def split: if_splits option.splits)
next
  case (Deliver ts)
  with assms obtain x rest where "s' = update_status x ts (s\<lparr> posted := rest \<rparr>)"
    by (auto simp add: step_def split: list.splits)
  with assms(1) show ?thesis
    by (simp add: timer_inv_update_status timer_inv_posted)
next
  case (OpenBox ts)
  with assms obtain x rest
    where "s' = (fst (update_status_begin x ts (s\<lparr> posted := rest \<rparr>)))
                  \<lparr> open_boxes := x # open_boxes (fst (update_status_begin x ts (s\<lparr> posted := rest \<rparr>))) \<rparr>"
    by (auto elim: step_OpenBox_cases)
  with assms(1) show ?thesis
    by (simp add: timer_inv_open_boxes timer_inv_update_status_begin timer_inv_posted)
next
  case Dismiss
  with assms obtain x rest where "s' = update_status_end x (s\<lparr> open_boxes := rest \<rparr>)"
    by (auto simp add: step_def split: list.splits)
  with assms(1) show ?thesis
    by (simp add: timer_inv_update_status_end timer_inv_open_boxes)
qed

lemma timer_inv_run: "timer_inv s \<Longrightarrow> run es s = Some s' \<Longrightarrow> timer_inv s'"
proof (induction es arbitrary: s)
  case Nil
  then show ?case by simp
next
  case (Cons e es)
  from Cons.prems(2) obtain s1 where e: "step e s = Some s1" and r: "run es s1 = Some s'"
    by (auto split: option.splits)
  from Cons.prems(1) e have "timer_inv s1" by (rule timer_inv_step)
  then show ?case using r by (rule Cons.IH)
qed

lemma timer_inv_length: "timer_inv s \<Longrightarrow> length (timers s) \<le> 1"
  by (auto simp add: timer_inv_def split: if_splits list.splits)

lemma is_monitoring_start_monitoring: "is_monitoring (start_monitoring s)"
  by (simp add: start_monitoring_def schedule_check_def log_history_def)

text \<open>
  C7. \<open>start_monitoring\<close> while monitoring is on returns the state as it found it:
  nothing is reset, nothing is logged, no worker is started and no timer job is
  registered. So a second start right after a first changes nothing. And in every state
  the event loop can reach from the initial one, at most one timer job is pending.
\<close>

theorem start_is_idempotent:
  "(is_monitoring s \<longrightarrow> start_monitoring s = s)
   \<and> start_monitoring (start_monitoring s) = start_monitoring s
   \<and> (run es init_state = Some s' \<longrightarrow> length (timers s') \<le> 1)"
proof (intro conjI impI)
  show "start_monitoring s = s" if "is_monitoring s"
    using that by (simp add: start_monitoring_def)
  show "start_monitoring (start_monitoring s) = start_monitoring s"
    using is_monitoring_start_monitoring [of s]
    by (simp add: start_monitoring_def [of "start_monitoring s"])
  show "length (timers s') \<le> 1" if "run es init_state = Some s'"
    using timer_inv_init that by (blast intro: timer_inv_run timer_inv_length)
qed

theorem start_is_idempotent_witness:
  "\<exists>s'. is_monitoring (start_monitoring init_state)
     \<and> start_monitoring (start_monitoring init_state) = start_monitoring init_state
     \<and> run [Start, Start, TimerFire 0, Start] init_state = Some s'
     \<and> timers s' = [(1, 3000)]
     \<and> length (timers s') \<le> 1"
proof -
  let ?es = "[Start, Start, TimerFire 0, Start]"
  define s' where "s' = the (run ?es init_state)"
  have r: "run ?es init_state = Some s'"
    by (simp add: s'_def step_def start_monitoring_def schedule_check_def log_history_def
        init_state_def after_cancel_def)
  have t: "timers s' = [(1, 3000)]"
    by (simp add: s'_def step_def start_monitoring_def schedule_check_def log_history_def
        init_state_def after_cancel_def CHECK_INTERVAL_def)
  have m: "is_monitoring (start_monitoring init_state)"
    by (rule is_monitoring_start_monitoring)
  from start_is_idempotent [of "start_monitoring init_state" ?es s'] m r
  have "start_monitoring (start_monitoring init_state) = start_monitoring init_state"
    and "length (timers s') \<le> 1"
    by blast+
  with m r t show ?thesis
    by (intro exI [of _ s']) simp
qed

subsection \<open>Overlapping probes\<close>

lemma step_in_flight_decreases:
  assumes "step e s = Some s'" and "in_flight s' < in_flight s"
  shows "\<exists>get. e = ProbeDone get"
proof (cases e)
  case Start
  with assms show ?thesis
    by (auto simp add: step_def start_monitoring_def schedule_check_def log_history_def
        split: if_splits)
next
  case Stop
  with assms show ?thesis
    by (auto simp add: step_def stop_monitoring_def Let_def log_history_def
        split: option.splits if_splits)
next
  case (TimerFire j)
  with assms show ?thesis
    by (auto simp add: step_def schedule_check_def split: if_splits)
next
  case (ProbeDone get)
  then show ?thesis by blast
next
  case (Deliver ts)
  with assms show ?thesis
    by (auto simp add: step_def update_status_def update_status_begin_def
        update_status_end_def Let_def log_history_def show_alert_def
        split: list.splits if_splits)
next
  case (OpenBox ts)
  with assms show ?thesis
    by (auto simp add: step_def update_status_begin_def Let_def log_history_def
        show_alert_def split: list.splits if_splits)
next
  case Dismiss
  with assms show ?thesis
    by (auto simp add: step_def update_status_end_def split: list.splits)
qed

text \<open>
  C9. A scheduling cycle starts its worker and registers the next cycle's timer job, with
  a delay of 3000 ms, in one go: it does not wait for the worker, and it does not look
  at the workers still running. So when the timer comes due before the first probe has
  finished, two probes are in flight. Nothing but a probe's own completion takes it out
  of the in-flight ones; in particular \<open>stop_monitoring\<close> does not.
\<close>

theorem next_timer_armed_at_launch:
  "(is_monitoring s \<longrightarrow>
      in_flight (schedule_check s) = in_flight s + 1
      \<and> timers (schedule_check s) = timers s @ [(next_job s, 3000)])
   \<and> (is_monitoring s \<and> step (TimerFire j) s = Some s' \<longrightarrow> in_flight s' = in_flight s + 1)
   \<and> in_flight (stop_monitoring s) = in_flight s
   \<and> (step e s = Some s' \<and> in_flight s' < in_flight s \<longrightarrow> (\<exists>get. e = ProbeDone get))
   \<and> (\<exists>s2. run [Start, TimerFire 0] init_state = Some s2
         \<and> in_flight s2 = 2 \<and> timers s2 = [(1, 3000)])"
proof (intro conjI impI)
  show "in_flight (schedule_check s) = in_flight s + 1" if "is_monitoring s"
    using that by (simp add: schedule_check_def)
  show "timers (schedule_check s) = timers s @ [(next_job s, 3000)]" if "is_monitoring s"
    using that by (simp add: schedule_check_def CHECK_INTERVAL_def)
  show "in_flight s' = in_flight s + 1"
    if "is_monitoring s \<and> step (TimerFire j) s = Some s'"
    using that by (auto simp add: step_def schedule_check_def split: if_splits)
  show "in_flight (stop_monitoring s) = in_flight s"
    by (simp add: stop_monitoring_def Let_def log_history_def split: option.split)
  show "\<exists>get. e = ProbeDone get" if "step e s = Some s' \<and> in_flight s' < in_flight s"
    using that by (blast intro: step_in_flight_decreases)
  show "\<exists>s2. run [Start, TimerFire 0] init_state = Some s2
         \<and> in_flight s2 = 2 \<and> timers s2 = [(1, 3000)]"
    by (simp add: step_def start_monitoring_def schedule_check_def log_history_def
        init_state_def after_cancel_def CHECK_INTERVAL_def)
qed

theorem next_timer_armed_at_launch_witness:
  "is_monitoring (start_monitoring init_state)
   \<and> in_flight (start_monitoring init_state) = 1
   \<and> step (TimerFire 0) (start_monitoring init_state)
       = Some (schedule_check ((start_monitoring init_state)\<lparr> timers := [] \<rparr>))
   \<and> in_flight (schedule_check ((start_monitoring init_state)\<lparr> timers := [] \<rparr>)) = 2
   \<and> in_flight (schedule_check (start_monitoring init_state)) = 2
   \<and> timers (schedule_check (start_monitoring init_state)) = [(0, 3000), (1, 3000)]
   \<and> step (ProbeDone (\<lambda>url timeout. Response 200)) (start_monitoring init_state)
       = Some ((start_monitoring init_state)\<lparr> in_flight := 0, posted := [True] \<rparr>)"
proof -
  let ?s = "start_monitoring init_state"
  let ?s' = "schedule_check (?s\<lparr> timers := [] \<rparr>)"
  have m: "is_monitoring ?s"
    by (rule is_monitoring_start_monitoring)
  have n: "in_flight ?s = 1" and t: "timers ?s = [(0, 3000)]" and j: "next_job ?s = 1"
    and p: "posted ?s = []"
    by (simp_all add: start_monitoring_def schedule_check_def log_history_def init_state_def
        CHECK_INTERVAL_def)
  have f: "step (TimerFire 0) ?s = Some ?s'"
    by (simp add: step_def t after_cancel_def)
  have d: "step (ProbeDone (\<lambda>url timeout. Response 200)) ?s
       = Some (?s\<lparr> in_flight := 0, posted := [True] \<rparr>)"
    by (simp add: step_def n p check_connection_def)
  from next_timer_armed_at_launch [of ?s 0 ?s' "TimerFire 0"] m f n t j
  have "in_flight ?s' = 2" and "in_flight (schedule_check ?s) = 2"
    and "timers (schedule_check ?s) = [(0, 3000), (1, 3000)]"
    by simp_all
  with m n f d show ?thesis by simp
qed

subsection \<open>A result that arrives after a stop\<close>

text \<open>
  C6. \<open>update_status\<close> does not look at \<open>is_monitoring\<close>. The run below starts
  monitoring, receives a first reading (online), lets the timer start a second probe,
  stops monitoring, and then the second probe times out and its result is delivered.
  Monitoring is off at that moment, and the result is processed all the same: the label
  that \<open>stop_monitoring\<close> had set to the idle text shows Offline, a DISCONNECTED line
  follows \<open>Monitoring stopped.\<close> in the history, a warning box is shown, and the
  previous reading is overwritten.
\<close>

theorem late_result_processed_while_idle:
  "map_option (\<lambda>s. (is_monitoring s, history s, alerts s, status_label_text s, previous_status s))
     (run [Start,
           ProbeDone (\<lambda>url timeout. Response 200),
           Deliver ''2024-05-01 12:00:00'',
           TimerFire 0,
           Stop,
           ProbeDone (\<lambda>url timeout. RequestException Timeout),
           Deliver ''2024-05-01 12:00:06''] init_state)
   = Some (False,
           [''Monitoring started.'',
            ''Initial status: Online '' @ em_dash @ '' 2024-05-01 12:00:00'',
            ''Monitoring stopped.'',
            red_circle @ '' DISCONNECTED '' @ em_dash @ '' 2024-05-01 12:00:06''],
           [(ShowWarning, ''Network Status'', ''Internet disconnected at 2024-05-01 12:00:06'')],
           red_circle @ ''  Offline'',
           Some False)"
  by (simp add: step_def start_monitoring_def schedule_check_def log_history_def
      init_state_def after_cancel_def check_connection_def update_status_def
      update_status_begin_def update_status_end_def stop_monitoring_def show_alert_def
      Let_def del: not_None_eq)


subsection \<open>Results processed while a message box is open\<close>

text \<open>
  C2. Two results in a row that differ are not always treated as a transition. In the
  run below the first reading is offline, the next result is online and opens the
  RECONNECTED box, and while that box is still open the timer starts another probe
  whose result, offline, is delivered. The call that opened the box has not yet written
  \<open>previous_status\<close>, which still holds the offline reading, so the offline result that
  follows the online one is taken as a repeat: no DISCONNECTED line is appended to the
  history and no warning box is shown.
\<close>

theorem differing_result_missed_while_box_open:
  "map_option (\<lambda>s. (history s, alerts s, open_boxes s, previous_status s))
     (run [Start,
           ProbeDone (\<lambda>url timeout. RequestException Timeout),
           Deliver ''2024-05-01 12:00:00'',
           TimerFire 0,
           ProbeDone (\<lambda>url timeout. Response 200),
           OpenBox ''2024-05-01 12:00:03'',
           TimerFire 1,
           ProbeDone (\<lambda>url timeout. RequestException Timeout),
           Deliver ''2024-05-01 12:00:06''] init_state)
   = Some ([''Monitoring started.'',
            ''Initial status: Offline '' @ em_dash @ '' 2024-05-01 12:00:00'',
            green_circle @ '' RECONNECTED  '' @ em_dash @ '' 2024-05-01 12:00:03''],
           [(ShowInfo, ''Network Status'', ''Internet reconnected at 2024-05-01 12:00:03'')],
           [True],
           Some False)"
  by (simp add: step_def start_monitoring_def schedule_check_def log_history_def
      init_state_def after_cancel_def check_connection_def update_status_def
      update_status_begin_def update_status_end_def show_alert_def Let_def
      del: not_None_eq)

text \<open>
  C3. Two results in a row that are equal are not always treated as a repeat. The run
  is the one above, except that the result delivered while the RECONNECTED box is open
  is online again. It is compared with the offline reading that \<open>previous_status\<close> still
  holds, so the second online result is logged as a second RECONNECTED line and shows a
  second info box.
\<close>

theorem equal_result_alerted_while_box_open:
  "map_option (\<lambda>s. (history s, alerts s, open_boxes s, previous_status s))
     (run [Start,
           ProbeDone (\<lambda>url timeout. RequestException Timeout),
           Deliver ''2024-05-01 12:00:00'',
           TimerFire 0,
           ProbeDone (\<lambda>url timeout. Response 200),
           OpenBox ''2024-05-01 12:00:03'',
           TimerFire 1,
           ProbeDone (\<lambda>url timeout. Response 200),
           Deliver ''2024-05-01 12:00:06''] init_state)
   = Some ([''Monitoring started.'',
            ''Initial status: Offline '' @ em_dash @ '' 2024-05-01 12:00:00'',
            green_circle @ '' RECONNECTED  '' @ em_dash @ '' 2024-05-01 12:00:03'',
            green_circle @ '' RECONNECTED  '' @ em_dash @ '' 2024-05-01 12:00:06''],
           [(ShowInfo, ''Network Status'', ''Internet reconnected at 2024-05-01 12:00:03''),
            (ShowInfo, ''Network Status'', ''Internet reconnected at 2024-05-01 12:00:06'')],
           [True],
           Some True)"
  by (simp add: step_def start_monitoring_def schedule_check_def log_history_def
      init_state_def after_cancel_def check_connection_def update_status_def
      update_status_begin_def update_status_end_def show_alert_def Let_def
      del: not_None_eq)

subsection \<open>The probe\<close>

text \<open>
  What the probe does on each outcome of the request: a response is reported reachable
  exactly when its status is below 400, an exception of the class
  \<^verbatim>\<open>RequestException\<close> is reported unreachable, and any other exception leaves the
  probe uncaught.
\<close>

lemma check_connection_cases:
  "(get CHECK_URL CHECK_TIMEOUT = Response status_code \<longrightarrow>
      check_connection get = Some (status_code < 400))
   \<and> (get CHECK_URL CHECK_TIMEOUT = RequestException e \<longrightarrow>
      check_connection get = Some False)
   \<and> (get CHECK_URL CHECK_TIMEOUT = OtherException class_name \<longrightarrow>
      check_connection get = None)"
  by (simp add: check_connection_def)

text \<open>
  C4. Not every failure of the request is reported as unreachable. When
  \<^verbatim>\<open>requests.get\<close> raises an exception that is not a \<^verbatim>\<open>RequestException\<close> (the
  \<^verbatim>\<open>ValueError\<close> of a redirect with a malformed \<^verbatim>\<open>Location\<close>), the \<^verbatim>\<open>except\<close> clause
  does not catch it: the exception leaves \<open>check_connection\<close>, the worker ends, and no
  result is posted, so the failure is never classified.
\<close>

theorem uncaught_exception_posts_no_result:
  "check_connection (\<lambda>url timeout. OtherException ''ValueError'') = None
   \<and> map_option (\<lambda>s. (posted s, in_flight s, history s))
        (run [Start, ProbeDone (\<lambda>url timeout. OtherException ''ValueError'')] init_state)
      = Some ([], 0, [''Monitoring started.''])"
  by (simp add: step_def start_monitoring_def schedule_check_def log_history_def
      init_state_def check_connection_def)

end
